theory Spec2Isabelle
  imports Main "HOL-Library.Word"
begin

section \<open>Crash recovery and bootloader update in AP\_HAL\_ChibiOS/Util.cpp\<close>

text \<open>
  The theory embeds the watchdog-recovery accessors and \<open>Util::flash_bootloader\<close> of
  \<open>libraries/AP_HAL_ChibiOS/Util.cpp\<close>. The functions of \<open>Util\<close> are translated
  statement by statement. The platform helpers they call (\<open>stm32_*\<close>, \<open>hal.flash\<close>,
  \<open>AP_ROMFS\<close>, \<open>hal.scheduler\<close>, \<open>hal.console\<close>) are defined in other files; they
  are taken as parameters, or recorded as calls in a log.
\<close>

type_synonym int32 = "32 word"
type_synonym uint32 = "32 word"
type_synonym uint16 = "16 word"
type_synonym byte = "8 word"

subsection \<open>Watchdog recovery accessors\<close>

text \<open>
  The \<open>stm32_*\<close> helpers called from Util.cpp, as parameters over a platform state
  \<open>'p\<close> (reset-cause latch and backup registers). A getter that writes through three
  \<open>int32_t *\<close> arguments is a function from the old values of the three targets to the
  new ones.
\<close>

type_synonym triple = "int32 \<times> int32 \<times> int32"

record 'p stm32 =
  stm32_was_watchdog_reset :: "'p \<Rightarrow> bool"
  stm32_get_boot_backup_safety_state :: "'p \<Rightarrow> bool"
  stm32_get_boot_backup_armed :: "'p \<Rightarrow> bool"
  stm32_set_backup_home :: "int32 \<Rightarrow> int32 \<Rightarrow> int32 \<Rightarrow> 'p \<Rightarrow> 'p"
  stm32_get_backup_home :: "'p \<Rightarrow> triple \<Rightarrow> triple"
  stm32_set_attitude :: "int32 \<Rightarrow> int32 \<Rightarrow> int32 \<Rightarrow> 'p \<Rightarrow> 'p"
  stm32_get_attitude :: "'p \<Rightarrow> triple \<Rightarrow> triple"

text \<open>\<open>Util::was_watchdog_reset\<close>: return true if the reason for the reboot was a
  watchdog reset.\<close>

definition was_watchdog_reset :: "'p stm32 \<Rightarrow> 'p \<Rightarrow> bool" where
  "was_watchdog_reset P p = stm32_was_watchdog_reset P p"

text \<open>\<open>Util::was_watchdog_safety_off\<close>:
  \<^verbatim>\<open>return stm32_was_watchdog_reset() && stm32_get_boot_backup_safety_state() == false;\<close>\<close>

definition was_watchdog_safety_off :: "'p stm32 \<Rightarrow> 'p \<Rightarrow> bool" where
  "was_watchdog_safety_off P p =
     (stm32_was_watchdog_reset P p \<and> stm32_get_boot_backup_safety_state P p = False)"

text \<open>\<open>Util::was_watchdog_armed\<close>:
  \<^verbatim>\<open>return stm32_was_watchdog_reset() && stm32_get_boot_backup_armed() == true;\<close>\<close>

definition was_watchdog_armed :: "'p stm32 \<Rightarrow> 'p \<Rightarrow> bool" where
  "was_watchdog_armed P p =
     (stm32_was_watchdog_reset P p \<and> stm32_get_boot_backup_armed P p = True)"

text \<open>\<open>Util::set_backup_home_state\<close> and \<open>Util::set_backup_attitude\<close> forward to the
  platform.\<close>

definition set_backup_home_state :: "'p stm32 \<Rightarrow> int32 \<Rightarrow> int32 \<Rightarrow> int32 \<Rightarrow> 'p \<Rightarrow> 'p" where
  "set_backup_home_state P lat lon alt_cm p = stm32_set_backup_home P lat lon alt_cm p"

definition set_backup_attitude :: "'p stm32 \<Rightarrow> int32 \<Rightarrow> int32 \<Rightarrow> int32 \<Rightarrow> 'p \<Rightarrow> 'p" where
  "set_backup_attitude P roll_cd pitch_cd yaw_cd p = stm32_set_attitude P roll_cd pitch_cd yaw_cd p"

text \<open>
  \<open>Util::get_backup_home_state(int32_t &lat, int32_t &lon, int32_t &alt_cm)\<close>. The three
  reference parameters are passed in with the caller's current values and returned, next
  to the boolean result, with the values they hold when the call returns.
\<close>

definition get_backup_home_state :: "'p stm32 \<Rightarrow> 'p \<Rightarrow> triple \<Rightarrow> bool \<times> triple" where
  "get_backup_home_state P p out =
     (case out of (lat, lon, alt_cm) \<Rightarrow>
        if was_watchdog_reset P p
        then (True, stm32_get_backup_home P p (lat, lon, alt_cm))
        else (False, (lat, lon, alt_cm)))"

text \<open>\<open>Util::get_backup_attitude(int32_t &roll_cd, int32_t &pitch_cd, int32_t &yaw_cd)\<close>,
  in the same way.\<close>

definition get_backup_attitude :: "'p stm32 \<Rightarrow> 'p \<Rightarrow> triple \<Rightarrow> bool \<times> triple" where
  "get_backup_attitude P p out =
     (case out of (roll_cd, pitch_cd, yaw_cd) \<Rightarrow>
        if was_watchdog_reset P p
        then (True, stm32_get_attitude P p (roll_cd, pitch_cd, yaw_cd))
        else (False, (roll_cd, pitch_cd, yaw_cd)))"

subsection \<open>The backup region of the specification\<close>

text \<open>
  The bodies of the \<open>stm32_*\<close> helpers are not part of the sources at hand. The
  specification describes what they operate on: a BackupState of an armed flag, a safety
  state, a home triple and an attitude triple, in a region that survives a watchdog reset,
  next to a hardware-latched reset-cause flag.
\<close>

record backup_state =
  bk_armed :: bool
  bk_safety :: bool
  bk_home :: triple
  bk_attitude :: triple

record platform =
  watchdog_latch :: bool
  region :: backup_state

text \<open>Modelled from the spec: the body of \<open>stm32_was_watchdog_reset\<close> is missing; the
  spec says it reads the hardware-latched reset-cause flag.\<close>

definition spec_was_watchdog_reset :: "platform \<Rightarrow> bool" where
  "spec_was_watchdog_reset p = watchdog_latch p"

text \<open>Modelled from the spec: the body of \<open>stm32_get_boot_backup_safety_state\<close> is
  missing; the spec says it reads the safety state stored in the backup region.\<close>

definition spec_get_boot_backup_safety_state :: "platform \<Rightarrow> bool" where
  "spec_get_boot_backup_safety_state p = bk_safety (region p)"

text \<open>Modelled from the spec: the body of \<open>stm32_get_boot_backup_armed\<close> is missing;
  the spec says it reads the armed flag stored in the backup region.\<close>

definition spec_get_boot_backup_armed :: "platform \<Rightarrow> bool" where
  "spec_get_boot_backup_armed p = bk_armed (region p)"

text \<open>Modelled from the spec: the body of \<open>stm32_set_backup_home\<close> is missing; the spec
  says \<open>set_home\<close> is an unconditional write of the three values into the region.\<close>

definition spec_set_backup_home :: "int32 \<Rightarrow> int32 \<Rightarrow> int32 \<Rightarrow> platform \<Rightarrow> platform" where
  "spec_set_backup_home lat lon alt_cm p =
     p\<lparr>region := (region p)\<lparr>bk_home := (lat, lon, alt_cm)\<rparr>\<rparr>"

text \<open>Modelled from the spec: the body of \<open>stm32_get_backup_home\<close> is missing; the spec
  says the reader delivers the home triple held in the region.\<close>

definition spec_get_backup_home :: "platform \<Rightarrow> triple \<Rightarrow> triple" where
  "spec_get_backup_home p out = bk_home (region p)"

text \<open>Modelled from the spec: the body of \<open>stm32_set_attitude\<close> is missing; the spec says
  \<open>set_attitude\<close> is an unconditional write of the three values into the region.\<close>

definition spec_set_attitude :: "int32 \<Rightarrow> int32 \<Rightarrow> int32 \<Rightarrow> platform \<Rightarrow> platform" where
  "spec_set_attitude roll_cd pitch_cd yaw_cd p =
     p\<lparr>region := (region p)\<lparr>bk_attitude := (roll_cd, pitch_cd, yaw_cd)\<rparr>\<rparr>"

text \<open>Modelled from the spec: the body of \<open>stm32_get_attitude\<close> is missing; the spec says
  the reader delivers the attitude triple held in the region.\<close>

definition spec_get_attitude :: "platform \<Rightarrow> triple \<Rightarrow> triple" where
  "spec_get_attitude p out = bk_attitude (region p)"

definition spec_platform :: "platform stm32" where
  "spec_platform =
     \<lparr> stm32_was_watchdog_reset = spec_was_watchdog_reset,
       stm32_get_boot_backup_safety_state = spec_get_boot_backup_safety_state,
       stm32_get_boot_backup_armed = spec_get_boot_backup_armed,
       stm32_set_backup_home = spec_set_backup_home,
       stm32_get_backup_home = spec_get_backup_home,
       stm32_set_attitude = spec_set_attitude,
       stm32_get_attitude = spec_get_attitude \<rparr>"

text \<open>Modelled from the spec: the reset itself is hardware behaviour with no code in the
  sources; the spec says a watchdog reset latches the reset-cause flag and the backup
  region survives it.\<close>

definition watchdog_reset :: "platform \<Rightarrow> platform" where
  "watchdog_reset p = p\<lparr>watchdog_latch := True\<rparr>"

text \<open>Modelled from the spec: a power cycle is hardware behaviour with no code in the
  sources; the spec says the region does not survive it and is neither zeroed nor
  validated, so its content afterwards is whatever is left over (the argument).\<close>

definition power_on :: "backup_state \<Rightarrow> platform" where
  "power_on leftover = \<lparr> watchdog_latch = False, region = leftover \<rparr>"

text \<open>The writes the flight code makes during normal operation, in order.\<close>

datatype backup_write =
    SetHome int32 int32 int32
  | SetAttitude int32 int32 int32

fun do_write :: "'p stm32 \<Rightarrow> backup_write \<Rightarrow> 'p \<Rightarrow> 'p" where
  "do_write P (SetHome lat lon alt_cm) p = set_backup_home_state P lat lon alt_cm p"
| "do_write P (SetAttitude roll_cd pitch_cd yaw_cd) p = set_backup_attitude P roll_cd pitch_cd yaw_cd p"

definition run_writes :: "'p stm32 \<Rightarrow> backup_write list \<Rightarrow> 'p \<Rightarrow> 'p" where
  "run_writes P ws p = fold (do_write P) ws p"

text \<open>The arguments of the most recent \<open>set_backup_home_state\<close> (of the most recent
  \<open>set_backup_attitude\<close>) in a sequence of writes, if there is one.\<close>

fun last_home :: "backup_write list \<Rightarrow> triple option" where
  "last_home [] = None"
| "last_home (SetHome lat lon alt_cm # ws) =
     (case last_home ws of None \<Rightarrow> Some (lat, lon, alt_cm) | Some h \<Rightarrow> Some h)"
| "last_home (SetAttitude roll_cd pitch_cd yaw_cd # ws) = last_home ws"

fun last_attitude :: "backup_write list \<Rightarrow> triple option" where
  "last_attitude [] = None"
| "last_attitude (SetAttitude roll_cd pitch_cd yaw_cd # ws) =
     (case last_attitude ws of None \<Rightarrow> Some (roll_cd, pitch_cd, yaw_cd) | Some a \<Rightarrow> Some a)"
| "last_attitude (SetHome lat lon alt_cm # ws) = last_attitude ws"

text \<open>Leftover register content for concrete evaluation.\<close>

definition leftover_regs :: backup_state where
  "leftover_regs =
     \<lparr> bk_armed = True, bk_safety = False,
       bk_home = (473977420, 85455940, 40800), bk_attitude = (150, - 320, 9000) \<rparr>"

subsection \<open>The collaborators of the bootloader updater\<close>

text \<open>
  \<open>Util::flash_bootloader\<close> reaches the resource store, the flash driver, the scheduler,
  the console and the heap through calls whose bodies are in other files. The flash
  driver and the resource store are parameters: \<open>'f\<close> is the state of the flash device,
  \<open>flash_erasepage\<close> and \<open>flash_write\<close> (\<open>hal.flash->erasepage\<close>, \<open>hal.flash->write\<close>)
  return their boolean result and the device's next state, and \<open>flash_mem\<close> is the
  memory-mapped view of the device that \<open>memcmp\<close> reads. \<open>romfs_find_decompress\<close>
  (\<open>AP_ROMFS::find_decompress\<close>) returns the decompressed image, or \<open>None\<close> for the null pointer; the
  buffer \<open>fw\<close> and its length \<open>fw_size\<close> are one byte list.
\<close>

record 'f hal =
  romfs_find_decompress :: "string \<Rightarrow> byte list option"
  flash_getpageaddr :: "uint32 \<Rightarrow> uint32"
  flash_erasepage :: "uint32 \<Rightarrow> 'f \<Rightarrow> bool \<times> 'f"
  flash_write :: "uint32 \<Rightarrow> byte list \<Rightarrow> 'f \<Rightarrow> bool \<times> 'f"
  flash_mem :: "'f \<Rightarrow> uint32 \<Rightarrow> byte"

text \<open>The console lines of \<open>flash_bootloader\<close>, one constructor per format string, with
  the arguments of the format.\<close>

datatype message =
    FailedToFind string
  | BootloaderUpToDate
  | Erasing
  | EraseFailed
  | Flashing string uint32
  | FlashFailedAttempt nat nat
  | FlashOK
  | FlashFailedAfter nat

text \<open>The calls with an effect outside the function, in the order they are made.\<close>

datatype event =
    ExpectDelay uint32
  | FindDecompress string
  | Printf message
  | Free
  | ErasePage uint32
  | FlashWrite uint32 "byte list"
  | Delay uint16

record 'f sys =
  flash :: 'f
  calls :: "event list"

definition expect_delay_ms :: "uint32 \<Rightarrow> 'f sys \<Rightarrow> 'f sys" where
  "expect_delay_ms ms s = s\<lparr>calls := calls s @ [ExpectDelay ms]\<rparr>"

definition printf :: "message \<Rightarrow> 'f sys \<Rightarrow> 'f sys" where
  "printf m s = s\<lparr>calls := calls s @ [Printf m]\<rparr>"

definition free :: "'f sys \<Rightarrow> 'f sys" where
  "free s = s\<lparr>calls := calls s @ [Free]\<rparr>"

definition delay :: "uint16 \<Rightarrow> 'f sys \<Rightarrow> 'f sys" where
  "delay ms s = s\<lparr>calls := calls s @ [Delay ms]\<rparr>"

definition call_find_decompress :: "'f hal \<Rightarrow> string \<Rightarrow> 'f sys \<Rightarrow> byte list option \<times> 'f sys" where
  "call_find_decompress H name s =
     (romfs_find_decompress H name, s\<lparr>calls := calls s @ [FindDecompress name]\<rparr>)"

definition call_erasepage :: "'f hal \<Rightarrow> uint32 \<Rightarrow> 'f sys \<Rightarrow> bool \<times> 'f sys" where
  "call_erasepage H page s =
     (case flash_erasepage H page (flash s) of
        (ok, f') \<Rightarrow> (ok, s\<lparr>flash := f', calls := calls s @ [ErasePage page]\<rparr>))"

definition call_write :: "'f hal \<Rightarrow> uint32 \<Rightarrow> byte list \<Rightarrow> 'f sys \<Rightarrow> bool \<times> 'f sys" where
  "call_write H addr fw s =
     (case flash_write H addr fw (flash s) of
        (ok, f') \<Rightarrow> (ok, s\<lparr>flash := f', calls := calls s @ [FlashWrite addr fw]\<rparr>))"

text \<open>
  \<open>memcmp(fw, (const void*)addr, fw_size)\<close>: the bytes of \<open>fw\<close> against the memory from
  \<open>addr\<close> on, compared as unsigned bytes; 0 when all are equal, otherwise the sign of the
  first difference.
\<close>

fun memcmp :: "byte list \<Rightarrow> (uint32 \<Rightarrow> byte) \<Rightarrow> uint32 \<Rightarrow> int" where
  "memcmp [] m a = 0"
| "memcmp (b # bs) m a =
     (if b = m a then memcmp bs m (a + 1) else if b < m a then - 1 else 1)"

text \<open>The \<open>n\<close> bytes of memory from \<open>addr\<close> on.\<close>

definition flash_bytes :: "(uint32 \<Rightarrow> byte) \<Rightarrow> uint32 \<Rightarrow> nat \<Rightarrow> byte list" where
  "flash_bytes m addr n = map (\<lambda>i. m (addr + of_nat i)) [0..<n]"

subsection \<open>Util::flash\_bootloader\<close>

text \<open>\<^verbatim>\<open>const uint8_t max_attempts = 10;\<close>\<close>

definition max_attempts :: nat where
  "max_attempts = 10"

text \<open>
  The loop \<^verbatim>\<open>for (uint8_t i=0; i<max_attempts; i++)\<close>. The counter stays in 0..10, so the
  \<open>uint8_t\<close> never wraps and is a \<open>nat\<close> here. The result is \<open>Some r\<close> when the body
  executed \<open>return r\<close>, and \<open>None\<close> when the loop ran to its end.
\<close>

function program_loop ::
  "'f hal \<Rightarrow> uint32 \<Rightarrow> byte list \<Rightarrow> nat \<Rightarrow> 'f sys \<Rightarrow> bool option \<times> 'f sys" where
  "program_loop H addr fw i s =
     (if i < max_attempts then
        (case call_write H addr fw s of
           (ok, s1) \<Rightarrow>
             if \<not> ok then
               program_loop H addr fw (i + 1)
                 (delay 1000 (printf (FlashFailedAttempt (i + 1) max_attempts) s1))
             else (Some True, expect_delay_ms 0 (free (printf FlashOK s1))))
      else (None, s))"
  by pat_completeness auto
termination
  by (relation "measure (\<lambda>(H, addr, fw, i, s). max_attempts - i)") auto

declare program_loop.simps [simp del]

definition flash_bootloader :: "'f hal \<Rightarrow> 'f sys \<Rightarrow> bool \<times> 'f sys" where
  "flash_bootloader H s0 =
     (let fw_name = ''bootloader.bin'';
          s1 = expect_delay_ms 5000 s0
      in case call_find_decompress H fw_name s1 of
           (None, s2) \<Rightarrow>
             (False, expect_delay_ms 0 (printf (FailedToFind fw_name) s2))
         | (Some fw, s2) \<Rightarrow>
             (let addr = flash_getpageaddr H 0 in
              if memcmp fw (flash_mem H (flash s2)) addr = 0 then
                (True, expect_delay_ms 0 (free (printf BootloaderUpToDate s2)))
              else
                (case call_erasepage H 0 (printf Erasing s2) of
                   (erased, s3) \<Rightarrow>
                     if \<not> erased then
                       (False, expect_delay_ms 0 (free (printf EraseFailed s3)))
                     else
                       (case program_loop H addr fw 0 (printf (Flashing fw_name addr) s3) of
                          (Some r, s4) \<Rightarrow> (r, s4)
                        | (None, s4) \<Rightarrow>
                            (False,
                             expect_delay_ms 0
                               (free (printf (FlashFailedAfter max_attempts) s4)))))))"

text \<open>The calls made between two states: what the later log has beyond the earlier.\<close>

definition new_calls :: "'f sys \<Rightarrow> 'f sys \<Rightarrow> event list" where
  "new_calls s s' = drop (length (calls s)) (calls s')"

fun is_expect_delay :: "event \<Rightarrow> bool" where
  "is_expect_delay (ExpectDelay ms) = True"
| "is_expect_delay e = False"

fun is_flash_op :: "event \<Rightarrow> bool" where
  "is_flash_op (ErasePage page) = True"
| "is_flash_op (FlashWrite addr fw) = True"
| "is_flash_op e = False"

fun is_write :: "event \<Rightarrow> bool" where
  "is_write (FlashWrite addr fw) = True"
| "is_write e = False"

fun is_write_or_delay :: "event \<Rightarrow> bool" where
  "is_write_or_delay (FlashWrite addr fw) = True"
| "is_write_or_delay (Delay ms) = True"
| "is_write_or_delay e = False"

text \<open>
  A monitor for the stall allowance over a sequence of calls: \<open>cur\<close> is the argument of
  the latest \<open>expect_delay_ms\<close>, and every flash erase or write must find it positive.
\<close>

fun allowance_held :: "uint32 \<Rightarrow> event list \<Rightarrow> bool" where
  "allowance_held cur [] = True"
| "allowance_held cur (ExpectDelay ms # es) = allowance_held ms es"
| "allowance_held cur (e # es) =
     (if is_flash_op e then 0 < cur \<and> allowance_held cur es else allowance_held cur es)"

text \<open>The flash device's state after one more \<open>write\<close> of the image, whatever the
  result of that write.\<close>

definition write_step :: "'f hal \<Rightarrow> uint32 \<Rightarrow> byte list \<Rightarrow> 'f \<Rightarrow> 'f" where
  "write_step H addr fw f = snd (flash_write H addr fw f)"

subsection \<open>A flash device for concrete evaluation\<close>

text \<open>
  One page of bytes mapped at 0x08000000. \<open>img\<close> is what the resource store holds under
  \<open>bootloader.bin\<close>; \<open>erase_ok\<close> and \<open>write_ok\<close> say whether the device's erase and
  write succeed. An erase sets every byte to 0xFF, a write replaces the first bytes of
  the page.
\<close>

definition test_hal :: "byte list option \<Rightarrow> bool \<Rightarrow> bool \<Rightarrow> (byte list) hal" where
  "test_hal img erase_ok write_ok =
     \<lparr> romfs_find_decompress = (\<lambda>name. if name = ''bootloader.bin'' then img else None),
       flash_getpageaddr = (\<lambda>page. 0x08000000),
       flash_erasepage = (\<lambda>page f. if erase_ok then (True, map (\<lambda>b. 0xFF) f) else (False, f)),
       flash_write = (\<lambda>addr bs f. if write_ok then (True, bs @ drop (length bs) f) else (False, f)),
       flash_mem = (\<lambda>f a. if unat (a - 0x08000000) < length f then f ! unat (a - 0x08000000) else 0xFF) \<rparr>"

definition test_sys :: "byte list \<Rightarrow> (byte list) sys" where
  "test_sys content = \<lparr> flash = content, calls = [] \<rparr>"

subsection \<open>Theorems on the watchdog recovery accessors\<close>

text \<open>
  C6: \<open>was_watchdog_safety_off\<close> is true exactly when the reset was a watchdog reset and
  the stored safety boolean is false; in the three other cases it is false.
\<close>

theorem was_watchdog_safety_off_iff:
  "was_watchdog_safety_off P p
     = (if stm32_was_watchdog_reset P p
        then (if stm32_get_boot_backup_safety_state P p then False else True)
        else False)"
  by (simp add: was_watchdog_safety_off_def)

text \<open>
  C7: \<open>was_watchdog_armed\<close> is true if and only if the reset was a watchdog reset and the
  stored armed flag is true.
\<close>

theorem was_watchdog_armed_iff:
  "was_watchdog_armed P p
     \<longleftrightarrow> was_watchdog_reset P p \<and> stm32_get_boot_backup_armed P p"
  by (simp add: was_watchdog_armed_def was_watchdog_reset_def)

text \<open>
  C1: on a boot where \<open>was_watchdog_reset\<close> is false, \<open>get_backup_home_state\<close> and
  \<open>get_backup_attitude\<close> both return false, whatever the platform state (and so the
  backup registers) holds and whatever the platform's getters would deliver.
\<close>

theorem get_backup_absent_without_watchdog:
  assumes "\<not> was_watchdog_reset P p"
  shows "fst (get_backup_home_state P p home_out) = False
       \<and> fst (get_backup_attitude P p att_out) = False"
  using assms
  by (simp add: get_backup_home_state_def get_backup_attitude_def split: prod.splits)

theorem get_backup_absent_without_watchdog_witness:
  "\<not> was_watchdog_reset spec_platform (power_on leftover_regs)
   \<and> fst (get_backup_home_state spec_platform (power_on leftover_regs) (1, 2, 3)) = False
   \<and> fst (get_backup_attitude spec_platform (power_on leftover_regs) (4, 5, 6)) = False"
proof -
  have h: "\<not> was_watchdog_reset spec_platform (power_on leftover_regs)"
    by (simp add: was_watchdog_reset_def spec_platform_def spec_was_watchdog_reset_def
        power_on_def)
  show ?thesis
    using h get_backup_absent_without_watchdog [OF h, of "(1, 2, 3)" "(4, 5, 6)"]
    by simp
qed

text \<open>
  C10: on a boot where \<open>was_watchdog_reset\<close> is false, both getters return false and
  leave the caller's three variables as they were.
\<close>

theorem get_backup_outputs_untouched_without_watchdog:
  assumes "\<not> was_watchdog_reset P p"
  shows "get_backup_home_state P p (lat, lon, alt_cm) = (False, (lat, lon, alt_cm))
       \<and> get_backup_attitude P p (roll_cd, pitch_cd, yaw_cd) = (False, (roll_cd, pitch_cd, yaw_cd))"
  using assms
  by (simp add: get_backup_home_state_def get_backup_attitude_def)

theorem get_backup_outputs_untouched_without_watchdog_witness:
  "\<not> was_watchdog_reset spec_platform (power_on leftover_regs)
   \<and> get_backup_home_state spec_platform (power_on leftover_regs) (1, 2, 3) = (False, (1, 2, 3))
   \<and> get_backup_attitude spec_platform (power_on leftover_regs) (4, 5, 6) = (False, (4, 5, 6))"
proof -
  have h: "\<not> was_watchdog_reset spec_platform (power_on leftover_regs)"
    by (simp add: was_watchdog_reset_def spec_platform_def spec_was_watchdog_reset_def
        power_on_def)
  show ?thesis
    using h get_backup_outputs_untouched_without_watchdog [OF h, of 1 2 3 4 5 6]
    by simp
qed

subsection \<open>Round trip across a watchdog reset\<close>

lemma spec_fields [simp]:
  "stm32_was_watchdog_reset spec_platform = spec_was_watchdog_reset"
  "stm32_set_backup_home spec_platform = spec_set_backup_home"
  "stm32_get_backup_home spec_platform = spec_get_backup_home"
  "stm32_set_attitude spec_platform = spec_set_attitude"
  "stm32_get_attitude spec_platform = spec_get_attitude"
  by (simp_all add: spec_platform_def)

lemma run_writes_Cons:
  "run_writes P (w # ws) p = run_writes P ws (do_write P w p)"
  by (simp add: run_writes_def)

lemma run_writes_latch:
  "watchdog_latch (run_writes spec_platform ws p) = watchdog_latch p"
proof (induction ws arbitrary: p)
  case Nil
  show ?case by (simp add: run_writes_def)
next
  case (Cons w ws)
  show ?case
    by (cases w)
      (simp_all add: run_writes_Cons Cons.IH set_backup_home_state_def
        set_backup_attitude_def spec_set_backup_home_def spec_set_attitude_def)
qed

lemma run_writes_home:
  "bk_home (region (run_writes spec_platform ws p))
     = (case last_home ws of None \<Rightarrow> bk_home (region p) | Some h \<Rightarrow> h)"
proof (induction ws arbitrary: p)
  case Nil
  show ?case by (simp add: run_writes_def)
next
  case (Cons w ws)
  show ?case
    by (cases w)
      (simp_all add: run_writes_Cons Cons.IH set_backup_home_state_def
        set_backup_attitude_def spec_set_backup_home_def spec_set_attitude_def
        split: option.splits)
qed

lemma run_writes_attitude:
  "bk_attitude (region (run_writes spec_platform ws p))
     = (case last_attitude ws of None \<Rightarrow> bk_attitude (region p) | Some a \<Rightarrow> a)"
proof (induction ws arbitrary: p)
  case Nil
  show ?case by (simp add: run_writes_def)
next
  case (Cons w ws)
  show ?case
    by (cases w)
      (simp_all add: run_writes_Cons Cons.IH set_backup_home_state_def
        set_backup_attitude_def spec_set_backup_home_def spec_set_attitude_def
        split: option.splits)
qed

text \<open>
  C2: let the flight code make any sequence of writes through \<open>set_backup_home_state\<close> and
  \<open>set_backup_attitude\<close>, and let a watchdog reset follow. On the boot after it,
  \<open>was_watchdog_reset\<close> is true, \<open>get_backup_home_state\<close> returns true with exactly the
  arguments of the last \<open>set_backup_home_state\<close>, and \<open>get_backup_attitude\<close> returns true
  with exactly the arguments of the last \<open>set_backup_attitude\<close>, whatever the caller's
  variables held before. (On the platform modelled from the specification.)
\<close>

theorem backup_round_trip_across_watchdog_reset:
  "was_watchdog_reset spec_platform (watchdog_reset (run_writes spec_platform ws p))
   \<and> (last_home ws = Some (lat, lon, alt_cm) \<longrightarrow>
        get_backup_home_state spec_platform
          (watchdog_reset (run_writes spec_platform ws p)) home_out
        = (True, (lat, lon, alt_cm)))
   \<and> (last_attitude ws = Some (roll_cd, pitch_cd, yaw_cd) \<longrightarrow>
        get_backup_attitude spec_platform
          (watchdog_reset (run_writes spec_platform ws p)) att_out
        = (True, (roll_cd, pitch_cd, yaw_cd)))"
proof -
  let ?q = "watchdog_reset (run_writes spec_platform ws p)"
  have wd: "was_watchdog_reset spec_platform ?q"
    by (simp add: was_watchdog_reset_def spec_was_watchdog_reset_def watchdog_reset_def)
  have reg: "region ?q = region (run_writes spec_platform ws p)"
    by (simp add: watchdog_reset_def)
  have hm: "last_home ws = Some (lat, lon, alt_cm) \<Longrightarrow>
      get_backup_home_state spec_platform ?q home_out = (True, (lat, lon, alt_cm))"
    using wd
    by (simp add: get_backup_home_state_def spec_get_backup_home_def reg run_writes_home
        split: prod.splits)
  have at: "last_attitude ws = Some (roll_cd, pitch_cd, yaw_cd) \<Longrightarrow>
      get_backup_attitude spec_platform ?q att_out = (True, (roll_cd, pitch_cd, yaw_cd))"
    using wd
    by (simp add: get_backup_attitude_def spec_get_attitude_def reg run_writes_attitude
        split: prod.splits)
  from wd hm at show ?thesis by blast
qed

theorem backup_round_trip_across_watchdog_reset_witness:
  "last_home [SetHome 1 2 3, SetAttitude 4 5 6, SetHome 7 8 9, SetAttitude 10 11 12]
     = Some (7, 8, 9)
   \<and> last_attitude [SetHome 1 2 3, SetAttitude 4 5 6, SetHome 7 8 9, SetAttitude 10 11 12]
     = Some (10, 11, 12)
   \<and> get_backup_home_state spec_platform
       (watchdog_reset (run_writes spec_platform
          [SetHome 1 2 3, SetAttitude 4 5 6, SetHome 7 8 9, SetAttitude 10 11 12]
          (power_on leftover_regs))) (0, 0, 0)
     = (True, (7, 8, 9))
   \<and> get_backup_attitude spec_platform
       (watchdog_reset (run_writes spec_platform
          [SetHome 1 2 3, SetAttitude 4 5 6, SetHome 7 8 9, SetAttitude 10 11 12]
          (power_on leftover_regs))) (0, 0, 0)
     = (True, (10, 11, 12))"
proof -
  let ?ws = "[SetHome 1 2 3, SetAttitude 4 5 6, SetHome 7 8 9, SetAttitude 10 11 12]"
  have h1: "last_home ?ws = Some (7, 8, 9)" by simp
  have h2: "last_attitude ?ws = Some (10, 11, 12)" by simp
  show ?thesis
    using h1 h2
      backup_round_trip_across_watchdog_reset
        [of ?ws "power_on leftover_regs" 7 8 9 "(0, 0, 0)" 10 11 12 "(0, 0, 0)"]
    by simp
qed

subsection \<open>Lemmas on the calls of the bootloader updater\<close>

lemma calls_simps [simp]:
  "calls (expect_delay_ms ms s) = calls s @ [ExpectDelay ms]"
  "calls (printf m s) = calls s @ [Printf m]"
  "calls (free s) = calls s @ [Free]"
  "calls (delay d s) = calls s @ [Delay d]"
  by (simp_all add: expect_delay_ms_def printf_def free_def delay_def)

lemma flash_simps [simp]:
  "flash (expect_delay_ms ms s) = flash s"
  "flash (printf m s) = flash s"
  "flash (free s) = flash s"
  "flash (delay d s) = flash s"
  by (simp_all add: expect_delay_ms_def printf_def free_def delay_def)

lemma call_write_simps [simp]:
  "fst (call_write H addr fw s) = fst (flash_write H addr fw (flash s))"
  "flash (snd (call_write H addr fw s)) = snd (flash_write H addr fw (flash s))"
  "calls (snd (call_write H addr fw s)) = calls s @ [FlashWrite addr fw]"
  by (simp_all add: call_write_def split: prod.splits)

lemma call_erasepage_simps [simp]:
  "fst (call_erasepage H page s) = fst (flash_erasepage H page (flash s))"
  "flash (snd (call_erasepage H page s)) = snd (flash_erasepage H page (flash s))"
  "calls (snd (call_erasepage H page s)) = calls s @ [ErasePage page]"
  by (simp_all add: call_erasepage_def split: prod.splits)

lemma call_find_decompress_simps [simp]:
  "fst (call_find_decompress H name s) = romfs_find_decompress H name"
  "flash (snd (call_find_decompress H name s)) = flash s"
  "calls (snd (call_find_decompress H name s)) = calls s @ [FindDecompress name]"
  by (simp_all add: call_find_decompress_def)

lemma flash_bytes_Suc:
  "flash_bytes m a (Suc n) = m a # flash_bytes m (a + 1) n"
proof -
  have "[0..<Suc n] = 0 # map Suc [0..<n]"
    by (simp add: upt_conv_Cons map_Suc_upt del: upt_Suc)
  then show ?thesis
    by (simp add: flash_bytes_def comp_def add.assoc del: upt_Suc)
qed

lemma memcmp_zero_iff:
  "memcmp fw m a = 0 \<longleftrightarrow> fw = flash_bytes m a (length fw)"
proof (induction fw arbitrary: a)
  case Nil
  show ?case by (simp add: flash_bytes_def)
next
  case (Cons b bs)
  show ?case by (simp add: flash_bytes_Suc Cons.IH)
qed

lemma call_write_eq:
  "call_write H addr fw s =
     (fst (flash_write H addr fw (flash s)),
      s\<lparr>flash := write_step H addr fw (flash s), calls := calls s @ [FlashWrite addr fw]\<rparr>)"
  by (simp add: call_write_def write_step_def split: prod.splits)

lemma call_erasepage_eq:
  "call_erasepage H page s =
     (fst (flash_erasepage H page (flash s)),
      s\<lparr>flash := snd (flash_erasepage H page (flash s)), calls := calls s @ [ErasePage page]\<rparr>)"
  by (simp add: call_erasepage_def split: prod.splits)

lemma allowance_held_quiet:
  "\<forall>e \<in> set mid. \<not> is_expect_delay e \<Longrightarrow> 0 < cur \<Longrightarrow>
     allowance_held cur (mid @ es) = allowance_held cur es"
proof (induction mid)
  case Nil
  show ?case by simp
next
  case (Cons e mid)
  then show ?case by (cases e) simp_all
qed

lemma filter_quiet:
  "\<forall>e \<in> set mid. \<not> is_expect_delay e \<Longrightarrow> filter is_expect_delay mid = []"
  by (induction mid) simp_all

text \<open>
  The calls of the programming loop: writes of the image, console lines and delays, and
  when the loop returns from the function, the \<open>free\<close> and the reset of the allowance.
  The loop never returns false.
\<close>

lemma program_loop_calls:
  "program_loop H addr fw i s = (r, s') \<Longrightarrow>
     r \<noteq> Some False \<and>
     (\<exists>mid. calls s' = calls s @ mid @ (case r of None \<Rightarrow> [] | Some b \<Rightarrow> [Free, ExpectDelay 0])
          \<and> (\<forall>e \<in> set mid. e \<noteq> Free \<and> \<not> is_expect_delay e)
          \<and> (\<forall>e \<in> set mid. is_flash_op e \<longrightarrow> e = FlashWrite addr fw))"
proof (induction H addr fw i s arbitrary: r s' rule: program_loop.induct)
  case (1 H addr fw i s)
  show ?case
  proof (cases "i < max_attempts")
    case False
    with "1.prems" have "r = None" "s' = s"
      by (simp_all add: program_loop.simps [of H addr fw i s])
    then show ?thesis by simp
  next
    case True
    obtain ok s1 where w: "call_write H addr fw s = (ok, s1)"
      by (cases "call_write H addr fw s")
    have c1: "calls s1 = calls s @ [FlashWrite addr fw]"
      using call_write_simps(3) [of H addr fw s] w by simp
    show ?thesis
    proof (cases ok)
      case True
      with \<open>i < max_attempts\<close> w "1.prems"
      have "r = Some True" "s' = expect_delay_ms 0 (free (printf FlashOK s1))"
        by (simp_all add: program_loop.simps [of H addr fw i s])
      moreover have "calls (expect_delay_ms 0 (free (printf FlashOK s1)))
          = calls s @ [FlashWrite addr fw, Printf FlashOK] @ [Free, ExpectDelay 0]"
        using c1 by simp
      moreover have "\<forall>e \<in> set [FlashWrite addr fw, Printf FlashOK].
          e \<noteq> Free \<and> \<not> is_expect_delay e \<and> (is_flash_op e \<longrightarrow> e = FlashWrite addr fw)"
        by simp
      ultimately show ?thesis
        by (intro conjI exI [of _ "[FlashWrite addr fw, Printf FlashOK]"]) simp_all
    next
      case False
      let ?s2 = "delay 1000 (printf (FlashFailedAttempt (i + 1) max_attempts) s1)"
      from False \<open>i < max_attempts\<close> w "1.prems"
      have rec: "program_loop H addr fw (i + 1) ?s2 = (r, s')"
        by (simp add: program_loop.simps [of H addr fw i s])
      from "1.IH" [OF \<open>i < max_attempts\<close> w [symmetric] _ rec] False
      obtain mid where nf: "r \<noteq> Some False"
        and m: "calls s' = calls ?s2 @ mid @ (case r of None \<Rightarrow> [] | Some b \<Rightarrow> [Free, ExpectDelay 0])"
        and m2: "\<forall>e \<in> set mid. e \<noteq> Free \<and> \<not> is_expect_delay e"
        and m3: "\<forall>e \<in> set mid. is_flash_op e \<longrightarrow> e = FlashWrite addr fw"
        by auto
      let ?mid = "[FlashWrite addr fw, Printf (FlashFailedAttempt (i + 1) max_attempts), Delay 1000] @ mid"
      have "calls s' = calls s @ ?mid @ (case r of None \<Rightarrow> [] | Some b \<Rightarrow> [Free, ExpectDelay 0])"
        using m c1 by simp
      moreover have "\<forall>e \<in> set ?mid. e \<noteq> Free \<and> \<not> is_expect_delay e"
        using m2 by simp
      moreover have "\<forall>e \<in> set ?mid. is_flash_op e \<longrightarrow> e = FlashWrite addr fw"
        using m3 by simp
      ultimately show ?thesis using nf by blast
    qed
  qed
qed


text \<open>
  The calls of a whole run: the request of the allowance first, its reset last, no other
  \<open>expect_delay_ms\<close> between them, and one \<open>free\<close> unless the fetch failed.
\<close>

lemma flash_bootloader_calls:
  "\<exists>mid. calls (snd (flash_bootloader H s))
            = calls s @ ExpectDelay 5000 # mid @ [ExpectDelay 0]
        \<and> (\<forall>e \<in> set mid. \<not> is_expect_delay e)
        \<and> count_list mid Free
            = (if romfs_find_decompress H ''bootloader.bin'' = None then 0 else 1)"
proof (cases "romfs_find_decompress H ''bootloader.bin''")
  case None
  then have "calls (snd (flash_bootloader H s))
      = calls s @ ExpectDelay 5000 #
          [FindDecompress ''bootloader.bin'', Printf (FailedToFind ''bootloader.bin'')]
          @ [ExpectDelay 0]"
    by (simp add: flash_bootloader_def call_find_decompress_def Let_def)
  with None show ?thesis
    by (intro exI [of _ "[FindDecompress ''bootloader.bin'',
          Printf (FailedToFind ''bootloader.bin'')]"]) simp
next
  case (Some fw)
  let ?addr = "flash_getpageaddr H 0"
  define s2 where "s2 = snd (call_find_decompress H ''bootloader.bin'' (expect_delay_ms 5000 s))"
  have fd: "call_find_decompress H ''bootloader.bin'' (expect_delay_ms 5000 s) = (Some fw, s2)"
    using Some by (simp add: s2_def call_find_decompress_def)
  have c2: "calls s2 = calls s @ [ExpectDelay 5000, FindDecompress ''bootloader.bin'']"
    by (simp add: s2_def)
  show ?thesis
  proof (cases "memcmp fw (flash_mem H (flash s2)) ?addr = 0")
    case True
    then have "calls (snd (flash_bootloader H s))
        = calls s @ ExpectDelay 5000 #
            [FindDecompress ''bootloader.bin'', Printf BootloaderUpToDate, Free]
            @ [ExpectDelay 0]"
      using fd c2 by (simp add: flash_bootloader_def Let_def)
    with Some show ?thesis
      by (intro exI [of _ "[FindDecompress ''bootloader.bin'', Printf BootloaderUpToDate, Free]"])
        simp
  next
    case differs: False
    let ?s2e = "printf Erasing s2"
    obtain erased s3 where er: "call_erasepage H 0 ?s2e = (erased, s3)"
      by (cases "call_erasepage H 0 ?s2e")
    have c3: "calls s3 = calls s @ [ExpectDelay 5000, FindDecompress ''bootloader.bin'',
        Printf Erasing, ErasePage 0]"
      using call_erasepage_simps(3) [of H 0 ?s2e] er c2 by simp
    show ?thesis
    proof (cases erased)
      case False
      then have "calls (snd (flash_bootloader H s))
          = calls s @ ExpectDelay 5000 #
              [FindDecompress ''bootloader.bin'', Printf Erasing, ErasePage 0,
               Printf EraseFailed, Free]
              @ [ExpectDelay 0]"
        using fd differs er c3 by (simp add: flash_bootloader_def Let_def)
      with Some show ?thesis
        by (intro exI [of _ "[FindDecompress ''bootloader.bin'', Printf Erasing, ErasePage 0,
               Printf EraseFailed, Free]"]) simp
    next
      case True
      let ?s3f = "printf (Flashing ''bootloader.bin'' ?addr) s3"
      obtain r s4 where pl: "program_loop H ?addr fw 0 ?s3f = (r, s4)"
        by (cases "program_loop H ?addr fw 0 ?s3f")
      from program_loop_calls [OF pl]
      obtain mid where nf: "r \<noteq> Some False"
        and m: "calls s4 = calls ?s3f @ mid @ (case r of None \<Rightarrow> [] | Some b \<Rightarrow> [Free, ExpectDelay 0])"
        and m2: "\<forall>e \<in> set mid. e \<noteq> Free \<and> \<not> is_expect_delay e"
        by blast
      let ?pre = "[FindDecompress ''bootloader.bin'', Printf Erasing, ErasePage 0,
                   Printf (Flashing ''bootloader.bin'' ?addr)]"
      have nofree: "count_list mid Free = 0"
        using m2 by (simp add: count_list_0_iff) blast
      show ?thesis
      proof (cases r)
        case None
        let ?mid = "?pre @ mid @ [Printf (FlashFailedAfter max_attempts), Free]"
        have "calls (snd (flash_bootloader H s)) = calls s @ ExpectDelay 5000 # ?mid @ [ExpectDelay 0]"
          using fd differs er True pl None m c3 by (simp add: flash_bootloader_def Let_def)
        moreover have "\<forall>e \<in> set ?mid. \<not> is_expect_delay e"
          using m2 by simp
        moreover have "count_list ?mid Free = 1"
          using nofree by simp
        ultimately show ?thesis using Some by (intro exI [of _ ?mid]) simp
      next
        case (Some b)
        let ?mid = "?pre @ mid @ [Free]"
        have "calls (snd (flash_bootloader H s)) = calls s @ ExpectDelay 5000 # ?mid @ [ExpectDelay 0]"
          using fd differs er True pl Some m c3 by (simp add: flash_bootloader_def Let_def)
        moreover have "\<forall>e \<in> set ?mid. \<not> is_expect_delay e"
          using m2 by simp
        moreover have "count_list ?mid Free = 1"
          using nofree by simp
        ultimately show ?thesis
          using \<open>romfs_find_decompress H ''bootloader.bin'' = Some fw\<close>
          by (intro exI [of _ ?mid]) simp
      qed
    qed
  qed
qed


text \<open>The loop when every write fails: it runs to its end, after one write, one console
  line and one delay per remaining value of the counter.\<close>

lemma program_loop_all_fail:
  "max_attempts - i = n \<Longrightarrow>
   \<forall>k < n. \<not> fst (flash_write H addr fw ((write_step H addr fw ^^ k) (flash s))) \<Longrightarrow>
   program_loop H addr fw i s =
     (None,
      s\<lparr>flash := (write_step H addr fw ^^ n) (flash s),
        calls := calls s @
          concat (map (\<lambda>j. [FlashWrite addr fw,
                            Printf (FlashFailedAttempt (j + 1) max_attempts),
                            Delay 1000]) [i..<max_attempts])\<rparr>)"
proof (induction n arbitrary: i s)
  case 0
  then have "\<not> i < max_attempts" by simp
  then show ?case
    by (simp add: program_loop.simps [of H addr fw i s])
next
  case (Suc n)
  let ?s1 = "s\<lparr>flash := write_step H addr fw (flash s), calls := calls s @ [FlashWrite addr fw]\<rparr>"
  let ?s2 = "delay 1000 (printf (FlashFailedAttempt (i + 1) max_attempts) ?s1)"
  from Suc.prems(1) have lt: "i < max_attempts" and n: "max_attempts - (i + 1) = n"
    by simp_all
  from Suc.prems(2) have fail0: "\<not> fst (flash_write H addr fw (flash s))"
    by (metis funpow_0 zero_less_Suc)
  have step: "program_loop H addr fw i s = program_loop H addr fw (i + 1) ?s2"
    using lt fail0 by (simp add: program_loop.simps [of H addr fw i s] call_write_eq)
  have fl: "flash ?s2 = write_step H addr fw (flash s)"
    by simp
  have rest: "\<forall>k < n. \<not> fst (flash_write H addr fw ((write_step H addr fw ^^ k) (flash ?s2)))"
  proof (intro allI impI)
    fix k assume "k < n"
    then have "Suc k < Suc n" by simp
    with Suc.prems(2)
    have "\<not> fst (flash_write H addr fw ((write_step H addr fw ^^ Suc k) (flash s)))"
      by blast
    then show "\<not> fst (flash_write H addr fw ((write_step H addr fw ^^ k) (flash ?s2)))"
      by (simp add: fl funpow_swap1)
  qed
  have upt: "[i..<max_attempts] = i # [i + 1..<max_attempts]"
    using lt by (simp add: upt_conv_Cons)
  show ?case
    unfolding step Suc.IH [OF n rest] upt
    by (simp add: funpow_swap1 delay_def printf_def)
qed

subsection \<open>The five return paths on the example device\<close>

text \<open>
  Fetch failure, image up to date, erase failure and programming success, each with the
  complete result; and the result of a run where every write fails.
\<close>

lemma return_paths:
  "flash_bootloader (test_hal None True True) (test_sys [0, 0, 0]) =
     (False, \<lparr> flash = [0, 0, 0],
               calls = [ExpectDelay 5000, FindDecompress ''bootloader.bin'',
                        Printf (FailedToFind ''bootloader.bin''), ExpectDelay 0] \<rparr>)"
  "flash_bootloader (test_hal (Some [0xAA, 0xBB]) True True) (test_sys [0xAA, 0xBB, 0]) =
     (True, \<lparr> flash = [0xAA, 0xBB, 0],
              calls = [ExpectDelay 5000, FindDecompress ''bootloader.bin'',
                       Printf BootloaderUpToDate, Free, ExpectDelay 0] \<rparr>)"
  "flash_bootloader (test_hal (Some [0xAA, 0xBB]) False True) (test_sys [0, 0, 0]) =
     (False, \<lparr> flash = [0, 0, 0],
               calls = [ExpectDelay 5000, FindDecompress ''bootloader.bin'', Printf Erasing,
                        ErasePage 0, Printf EraseFailed, Free, ExpectDelay 0] \<rparr>)"
  "flash_bootloader (test_hal (Some [0xAA, 0xBB]) True True) (test_sys [0, 0, 0]) =
     (True, \<lparr> flash = [0xAA, 0xBB, 0xFF],
              calls = [ExpectDelay 5000, FindDecompress ''bootloader.bin'', Printf Erasing,
                       ErasePage 0, Printf (Flashing ''bootloader.bin'' 0x08000000),
                       FlashWrite 0x08000000 [0xAA, 0xBB], Printf FlashOK, Free,
                       ExpectDelay 0] \<rparr>)"
  "fst (flash_bootloader (test_hal (Some [0xAA, 0xBB]) True False) (test_sys [0, 0, 0])) = False"
  by (simp_all add: flash_bootloader_def test_hal_def test_sys_def Let_def
      call_find_decompress_def expect_delay_ms_def printf_def free_def delay_def
      call_erasepage_def call_write_def program_loop.simps max_attempts_def)

subsection \<open>Theorems on the bootloader updater\<close>

text \<open>
  C3: when the image is found and differs from the flash content at the target address,
  the erase succeeds, and each of the ten writes fails on the device state it is attempted
  on, \<open>flash_bootloader\<close> returns false after exactly ten writes of the image, each
  followed by a \<open>delay(1000)\<close>; the calls of the run are exactly the listed ones.
\<close>

theorem program_exhausted_after_ten_attempts:
  assumes "romfs_find_decompress H ''bootloader.bin'' = Some fw"
    and "flash_bytes (flash_mem H (flash s)) (flash_getpageaddr H 0) (length fw) \<noteq> fw"
    and "fst (flash_erasepage H 0 (flash s))"
    and "\<forall>k < 10. \<not> fst (flash_write H (flash_getpageaddr H 0) fw
            ((write_step H (flash_getpageaddr H 0) fw ^^ k)
               (snd (flash_erasepage H 0 (flash s)))))"
  shows "fst (flash_bootloader H s) = False
       \<and> new_calls s (snd (flash_bootloader H s))
           = [ExpectDelay 5000, FindDecompress ''bootloader.bin'', Printf Erasing, ErasePage 0,
              Printf (Flashing ''bootloader.bin'' (flash_getpageaddr H 0))]
             @ concat (map (\<lambda>i. [FlashWrite (flash_getpageaddr H 0) fw,
                                 Printf (FlashFailedAttempt (i + 1) 10),
                                 Delay 1000]) [0..<10])
             @ [Printf (FlashFailedAfter 10), Free, ExpectDelay 0]
       \<and> length (filter is_write (new_calls s (snd (flash_bootloader H s)))) = 10
       \<and> filter is_write_or_delay (new_calls s (snd (flash_bootloader H s)))
           = concat (replicate 10 [FlashWrite (flash_getpageaddr H 0) fw, Delay 1000])"
proof -
  let ?addr = "flash_getpageaddr H 0"
  let ?s2 = "snd (call_find_decompress H ''bootloader.bin'' (expect_delay_ms 5000 s))"
  let ?s3 = "snd (call_erasepage H 0 (printf Erasing ?s2))"
  let ?s3f = "printf (Flashing ''bootloader.bin'' ?addr) ?s3"
  let ?tries = "concat (map (\<lambda>i. [FlashWrite ?addr fw,
                                 Printf (FlashFailedAttempt (i + 1) max_attempts),
                                 Delay 1000]) [0..<max_attempts])"
  have differs: "memcmp fw (flash_mem H (flash s)) ?addr \<noteq> 0"
    using assms(2) memcmp_zero_iff [of fw "flash_mem H (flash s)" ?addr] by auto
  have f3: "flash ?s3f = snd (flash_erasepage H 0 (flash s))"
    by simp
  have fails: "\<forall>k < max_attempts. \<not> fst (flash_write H ?addr fw
      ((write_step H ?addr fw ^^ k) (flash ?s3f)))"
    using assms(4) unfolding f3 max_attempts_def .
  have loop: "program_loop H ?addr fw 0 ?s3f =
      (None, ?s3f\<lparr>flash := (write_step H ?addr fw ^^ max_attempts) (flash ?s3f),
                 calls := calls ?s3f @ ?tries\<rparr>)"
    using program_loop_all_fail [of 0 max_attempts H ?addr fw ?s3f] fails by simp
  have run: "flash_bootloader H s =
      (False, expect_delay_ms 0 (free (printf (FlashFailedAfter max_attempts)
         (?s3f\<lparr>flash := (write_step H ?addr fw ^^ max_attempts) (flash ?s3f),
               calls := calls ?s3f @ ?tries\<rparr>))))"
    using assms(1,3) differs loop
    by (simp add: flash_bootloader_def Let_def call_find_decompress_def call_erasepage_eq)
  have new: "new_calls s (snd (flash_bootloader H s))
      = [ExpectDelay 5000, FindDecompress ''bootloader.bin'', Printf Erasing, ErasePage 0,
         Printf (Flashing ''bootloader.bin'' ?addr)]
        @ ?tries @ [Printf (FlashFailedAfter max_attempts), Free, ExpectDelay 0]"
    unfolding run by (simp add: new_calls_def)
  have ten: "[0..<10] = [0, 1, 2, 3, 4, 5, 6, 7, 8, 9 :: nat]"
    by (simp add: upt_rec)
  have res: "fst (flash_bootloader H s) = False"
    unfolding run by simp
  have cnt: "length (filter is_write (new_calls s (snd (flash_bootloader H s)))) = 10"
    unfolding new max_attempts_def ten by simp
  have alt: "filter is_write_or_delay (new_calls s (snd (flash_bootloader H s)))
           = concat (replicate 10 [FlashWrite ?addr fw, Delay 1000])"
    unfolding new max_attempts_def ten by (simp add: numeral_eq_Suc)
  show ?thesis
    using res new cnt alt unfolding max_attempts_def by simp
qed

theorem program_exhausted_after_ten_attempts_witness:
  "romfs_find_decompress (test_hal (Some [0xAA, 0xBB]) True False) ''bootloader.bin''
     = Some [0xAA, 0xBB]
   \<and> flash_bytes (flash_mem (test_hal (Some [0xAA, 0xBB]) True False) (flash (test_sys [0, 0, 0])))
        (flash_getpageaddr (test_hal (Some [0xAA, 0xBB]) True False) 0) (length [0xAA, 0xBB :: byte])
       \<noteq> [0xAA, 0xBB]
   \<and> fst (flash_erasepage (test_hal (Some [0xAA, 0xBB]) True False) 0 (flash (test_sys [0, 0, 0])))
   \<and> fst (flash_bootloader (test_hal (Some [0xAA, 0xBB]) True False) (test_sys [0, 0, 0])) = False
   \<and> length (filter is_write (new_calls (test_sys [0, 0, 0])
        (snd (flash_bootloader (test_hal (Some [0xAA, 0xBB]) True False) (test_sys [0, 0, 0]))))) = 10"
proof -
  let ?H = "test_hal (Some [0xAA, 0xBB]) True False"
  let ?s = "test_sys [0, 0, 0]"
  have h1: "romfs_find_decompress ?H ''bootloader.bin'' = Some [0xAA, 0xBB]"
    by (simp add: test_hal_def)
  have h2: "flash_bytes (flash_mem ?H (flash ?s)) (flash_getpageaddr ?H 0)
      (length [0xAA, 0xBB :: byte]) \<noteq> [0xAA, 0xBB]"
    by (simp add: test_hal_def test_sys_def flash_bytes_def)
  have h3: "fst (flash_erasepage ?H 0 (flash ?s))"
    by (simp add: test_hal_def)
  have h4: "\<forall>k < 10. \<not> fst (flash_write ?H (flash_getpageaddr ?H 0) [0xAA, 0xBB]
      ((write_step ?H (flash_getpageaddr ?H 0) [0xAA, 0xBB] ^^ k)
         (snd (flash_erasepage ?H 0 (flash ?s)))))"
    by (simp add: test_hal_def)
  show ?thesis
    using h1 h2 h3 program_exhausted_after_ten_attempts [OF h1 h2 h3 h4] by blast
qed

text \<open>
  C4: in every run of \<open>flash_bootloader\<close>, on every platform and from every state, the
  first call is \<open>expect_delay_ms(5000)\<close> with 5000 positive, every flash erase or write
  happens while the latest \<open>expect_delay_ms\<close> argument is positive, the last call before
  the return is \<open>expect_delay_ms(0)\<close>, and there is no other \<open>expect_delay_ms\<close>. The
  statement has no premise, so it holds on each of the five return paths.
\<close>

theorem stall_allowance_bracket:
  "calls (snd (flash_bootloader H s)) = calls s @ new_calls s (snd (flash_bootloader H s))
   \<and> hd (new_calls s (snd (flash_bootloader H s))) = ExpectDelay 5000
   \<and> (0 :: uint32) < 5000
   \<and> allowance_held 0 (new_calls s (snd (flash_bootloader H s)))
   \<and> filter is_expect_delay (new_calls s (snd (flash_bootloader H s)))
       = [ExpectDelay 5000, ExpectDelay 0]
   \<and> last (new_calls s (snd (flash_bootloader H s))) = ExpectDelay 0"
proof -
  obtain mid where c: "calls (snd (flash_bootloader H s))
        = calls s @ ExpectDelay 5000 # mid @ [ExpectDelay 0]"
    and q: "\<forall>e \<in> set mid. \<not> is_expect_delay e"
    using flash_bootloader_calls [of H s] by blast
  have n: "new_calls s (snd (flash_bootloader H s)) = ExpectDelay 5000 # mid @ [ExpectDelay 0]"
    by (simp add: new_calls_def c)
  have pos: "(0 :: uint32) < 5000" by simp
  have held: "allowance_held 0 (ExpectDelay 5000 # mid @ [ExpectDelay 0])"
    using allowance_held_quiet [OF q pos, of "[ExpectDelay 0]"] by simp
  have flt: "filter is_expect_delay (ExpectDelay 5000 # mid @ [ExpectDelay 0])
      = [ExpectDelay 5000, ExpectDelay 0]"
    by (simp add: filter_quiet [OF q])
  show ?thesis
    unfolding n using c pos held flt by simp
qed

text \<open>
  C5: when the image is found and equals the flash content at the target address over the
  image's length, \<open>flash_bootloader\<close> returns true, calls \<open>free\<close>, leaves the flash
  state as it was and makes no erase or write call; a second call right after it does the
  same again.
\<close>

theorem up_to_date_short_circuit:
  assumes "romfs_find_decompress H ''bootloader.bin'' = Some fw"
    and "flash_bytes (flash_mem H (flash s)) (flash_getpageaddr H 0) (length fw) = fw"
  shows "flash_bootloader H s =
           (True, s\<lparr>calls := calls s @
              [ExpectDelay 5000, FindDecompress ''bootloader.bin'',
               Printf BootloaderUpToDate, Free, ExpectDelay 0]\<rparr>)
       \<and> flash (snd (flash_bootloader H s)) = flash s
       \<and> filter is_flash_op (new_calls s (snd (flash_bootloader H s))) = []
       \<and> flash_bootloader H (snd (flash_bootloader H s)) =
           (True, s\<lparr>calls := calls s @
              [ExpectDelay 5000, FindDecompress ''bootloader.bin'',
               Printf BootloaderUpToDate, Free, ExpectDelay 0,
               ExpectDelay 5000, FindDecompress ''bootloader.bin'',
               Printf BootloaderUpToDate, Free, ExpectDelay 0]\<rparr>)"
proof -
  have run: "flash_bootloader H t =
           (True, t\<lparr>calls := calls t @
              [ExpectDelay 5000, FindDecompress ''bootloader.bin'',
               Printf BootloaderUpToDate, Free, ExpectDelay 0]\<rparr>)"
    if "flash t = flash s" for t
  proof -
    have "memcmp fw (flash_mem H (flash t)) (flash_getpageaddr H 0) = 0"
      using assms(2) that by (simp add: memcmp_zero_iff)
    then show ?thesis
      using assms(1)
      by (simp add: flash_bootloader_def Let_def call_find_decompress_def
          expect_delay_ms_def printf_def free_def)
  qed
  have first: "flash_bootloader H s =
           (True, s\<lparr>calls := calls s @
              [ExpectDelay 5000, FindDecompress ''bootloader.bin'',
               Printf BootloaderUpToDate, Free, ExpectDelay 0]\<rparr>)"
    by (rule run) simp
  show ?thesis
    unfolding first by (simp add: run new_calls_def)
qed

theorem up_to_date_short_circuit_witness:
  "romfs_find_decompress (test_hal (Some [0xAA, 0xBB]) True True) ''bootloader.bin''
     = Some [0xAA, 0xBB]
   \<and> flash_bytes (flash_mem (test_hal (Some [0xAA, 0xBB]) True True)
          (flash (test_sys [0xAA, 0xBB, 0])))
        (flash_getpageaddr (test_hal (Some [0xAA, 0xBB]) True True) 0) (length [0xAA, 0xBB :: byte])
       = [0xAA, 0xBB]
   \<and> fst (flash_bootloader (test_hal (Some [0xAA, 0xBB]) True True) (test_sys [0xAA, 0xBB, 0]))
   \<and> flash (snd (flash_bootloader (test_hal (Some [0xAA, 0xBB]) True True)
        (test_sys [0xAA, 0xBB, 0]))) = [0xAA, 0xBB, 0]"
proof -
  let ?H = "test_hal (Some [0xAA, 0xBB]) True True"
  let ?s = "test_sys [0xAA, 0xBB, 0]"
  have h1: "romfs_find_decompress ?H ''bootloader.bin'' = Some [0xAA, 0xBB]"
    by (simp add: test_hal_def)
  have h2: "flash_bytes (flash_mem ?H (flash ?s)) (flash_getpageaddr ?H 0)
      (length [0xAA, 0xBB :: byte]) = [0xAA, 0xBB]"
    by (simp add: test_hal_def test_sys_def flash_bytes_def)
  have fl: "flash ?s = [0xAA, 0xBB, 0]"
    by (simp add: test_sys_def)
  show ?thesis
    using h1 h2 fl up_to_date_short_circuit [OF h1 h2] by simp
qed

text \<open>
  C8: when the resource store has no \<open>bootloader.bin\<close>, \<open>flash_bootloader\<close> returns
  false, the flash state is unchanged and no erase or write call is made.
\<close>

theorem resource_absent_leaves_flash:
  assumes "romfs_find_decompress H ''bootloader.bin'' = None"
  shows "flash_bootloader H s =
           (False, s\<lparr>calls := calls s @
              [ExpectDelay 5000, FindDecompress ''bootloader.bin'',
               Printf (FailedToFind ''bootloader.bin''), ExpectDelay 0]\<rparr>)
       \<and> flash (snd (flash_bootloader H s)) = flash s
       \<and> filter is_flash_op (new_calls s (snd (flash_bootloader H s))) = []"
proof -
  have run: "flash_bootloader H s =
           (False, s\<lparr>calls := calls s @
              [ExpectDelay 5000, FindDecompress ''bootloader.bin'',
               Printf (FailedToFind ''bootloader.bin''), ExpectDelay 0]\<rparr>)"
    using assms
    by (simp add: flash_bootloader_def Let_def call_find_decompress_def
        expect_delay_ms_def printf_def)
  show ?thesis
    unfolding run by (simp add: new_calls_def)
qed


theorem resource_absent_leaves_flash_witness:
  "romfs_find_decompress (test_hal None True True) ''bootloader.bin'' = None
   \<and> flash_bootloader (test_hal None True True) (test_sys [1, 2, 3]) =
       (False, \<lparr> flash = [1, 2, 3],
                 calls = [ExpectDelay 5000, FindDecompress ''bootloader.bin'',
                          Printf (FailedToFind ''bootloader.bin''), ExpectDelay 0] \<rparr>)"
proof -
  have h: "romfs_find_decompress (test_hal None True True) ''bootloader.bin'' = None"
    by (simp add: test_hal_def)
  show ?thesis
    using h resource_absent_leaves_flash [OF h, of "test_sys [1, 2, 3]"]
    by (simp add: test_sys_def)
qed

text \<open>
  C9: when the image is found, the calls of a run of \<open>flash_bootloader\<close> contain exactly
  one \<open>free\<close>, whichever path the run takes.
\<close>

theorem image_freed_exactly_once:
  assumes "romfs_find_decompress H ''bootloader.bin'' = Some fw"
  shows "count_list (new_calls s (snd (flash_bootloader H s))) Free = 1"
proof -
  obtain mid where c: "calls (snd (flash_bootloader H s))
        = calls s @ ExpectDelay 5000 # mid @ [ExpectDelay 0]"
    and f: "count_list mid Free
        = (if romfs_find_decompress H ''bootloader.bin'' = None then 0 else 1)"
    using flash_bootloader_calls [of H s] by blast
  have n: "new_calls s (snd (flash_bootloader H s)) = ExpectDelay 5000 # mid @ [ExpectDelay 0]"
    by (simp add: new_calls_def c)
  show ?thesis
    unfolding n using f assms by simp
qed


theorem image_freed_exactly_once_witness:
  "romfs_find_decompress (test_hal (Some [0xAA, 0xBB]) True True) ''bootloader.bin''
     = Some [0xAA, 0xBB]
   \<and> count_list (new_calls (test_sys [0, 0, 0])
        (snd (flash_bootloader (test_hal (Some [0xAA, 0xBB]) True True) (test_sys [0, 0, 0]))))
        Free = 1"
proof -
  have h: "romfs_find_decompress (test_hal (Some [0xAA, 0xBB]) True True) ''bootloader.bin''
      = Some [0xAA, 0xBB]"
    by (simp add: test_hal_def)
  show ?thesis
    using h image_freed_exactly_once [OF h, of "test_sys [0, 0, 0]"] by blast
qed

end
